theory Spec2Isabelle
  imports Main "HOL-Library.Word" "HOL-Library.Sublist"
begin

section \<open>Strings of the host language\<close>

text \<open>
  A string of the source is a sequence of UTF-16 code units. \<open>ascii\<close> writes the
  ASCII part of a literal; the other code units of a literal are given by number.
\<close>

type_synonym jsstring = "16 word list"

definition ascii :: "string \<Rightarrow> jsstring" where
  "ascii s = map (\<lambda>c. of_nat (of_char c)) s"

text \<open>
  \<open>String.prototype.trim\<close> strips the code units of the productions WhiteSpace and
  LineTerminator of the language standard from both ends.
\<close>

definition isWhiteSpace :: "16 word \<Rightarrow> bool" where
  "isWhiteSpace c \<longleftrightarrow>
     c = 0x9 \<or> c = 0xA \<or> c = 0xB \<or> c = 0xC \<or> c = 0xD \<or> c = 0x20 \<or> c = 0xA0 \<or>
     c = 0x1680 \<or> (0x2000 \<le> c \<and> c \<le> 0x200A) \<or> c = 0x2028 \<or> c = 0x2029 \<or>
     c = 0x202F \<or> c = 0x205F \<or> c = 0x3000 \<or> c = 0xFEFF"

definition trim :: "jsstring \<Rightarrow> jsstring" where
  "trim s = rev (dropWhile isWhiteSpace (rev (dropWhile isWhiteSpace s)))"

definition endsWith :: "jsstring \<Rightarrow> jsstring \<Rightarrow> bool" where
  "endsWith s t \<longleftrightarrow> length t \<le> length s \<and> drop (length s - length t) s = t"

text \<open>\<open>Number.prototype.toString\<close> on a non-negative integer: its decimal digits.\<close>

fun toString :: "nat \<Rightarrow> jsstring" where
  "toString n =
     (if n < 10 then [of_nat (48 + n)]
      else toString (n div 10) @ [of_nat (48 + n mod 10)])"

declare toString.simps [simp del]

section \<open>Data model (types.ts)\<close>

datatype role = User | Model

record Message =
  id_m :: jsstring
  role :: role
  text_m :: jsstring
  timestamp :: nat
  isError :: "bool option"

record AnalysisData =
  mood :: jsstring
  symptoms :: "jsstring list"
  solutions :: "jsstring list"
  summary :: jsstring
  disclaimer :: jsstring

datatype LoadingState = IDLE | SENDING | ANALYZING

section \<open>Component state and the updates a handler issues\<close>

text \<open>
  The state of the component \<open>App\<close>: the six \<open>useState\<close> cells and the two refs the
  handlers read (\<open>recognitionRef\<close> holds a recogniser or nothing; \<open>baseTextRef\<close> the
  draft saved when listening started).
\<close>

record App =
  messages :: "Message list"
  inputText :: jsstring
  loadingState :: LoadingState
  analysisData :: "AnalysisData option"
  showAnalysis :: bool
  isListening :: bool
  recognitionRef :: bool
  baseTextRef :: jsstring

text \<open>
  A handler is a sequence of state updates and calls to its collaborators, in program
  order. The three shapes of \<open>setMessages\<close> in the source are kept apart: a plain value,
  the functional update appending one message, and the functional update mapping over the
  list to rewrite the text of the messages with a given id. The mapping update closes
  over the handler's variable \<open>fullResponseText\<close>: it writes the value the variable
  has when React runs the update, not the value it had when the update was issued. So
  the update carries the id only, and \<open>fullResponseText += textChunk\<close> is an effect of
  its own. \<open>Render\<close> is not issued by a handler: it stands for React rendering.
  A handler reads the state cells of the render it belongs to; this is taken to be the
  state at the moment the handler is called. Scrolling and the resizing of the textarea
  touch the page only and are left out.
\<close>

datatype effect =
    SetMessages_value "Message list"
  | SetMessages_append Message
  | SetMessages_map jsstring
  | SetInputText jsstring
  | SetLoadingState LoadingState
  | SetAnalysisData AnalysisData
  | SetShowAnalysis bool
  | SetIsListening bool
  | SetBaseTextRef jsstring
  | SetRecognitionRef
  | FullResponseText_add jsstring
  | ResetChatSession
  | GetChatSession
  | SendMessageStream jsstring
  | AnalyzeConversation "Message list"
  | RecognitionStart
  | RecognitionStop
  | Alert
  | ConsoleError
  | Render

text \<open>The updates of \<open>useState\<close> cells, which React queues.\<close>

fun is_update :: "effect \<Rightarrow> bool" where
  "is_update (SetMessages_value ms) = True"
| "is_update (SetMessages_append m) = True"
| "is_update (SetMessages_map rid) = True"
| "is_update (SetInputText t) = True"
| "is_update (SetLoadingState l) = True"
| "is_update (SetAnalysisData d) = True"
| "is_update (SetShowAnalysis b) = True"
| "is_update (SetIsListening b) = True"
| "is_update _ = False"

text \<open>
  React running one queued update on the state; \<open>full\<close> is the value of
  \<open>fullResponseText\<close> at that moment.
\<close>

fun apply_update :: "jsstring \<Rightarrow> effect \<Rightarrow> App \<Rightarrow> App" where
  "apply_update full (SetMessages_value ms) s = s\<lparr>messages := ms\<rparr>"
| "apply_update full (SetMessages_append m) s = s\<lparr>messages := messages s @ [m]\<rparr>"
| "apply_update full (SetMessages_map rid) s =
     s\<lparr>messages :=
         map (\<lambda>msg. if id_m msg = rid then msg\<lparr>text_m := full\<rparr> else msg) (messages s)\<rparr>"
| "apply_update full (SetInputText t) s = s\<lparr>inputText := t\<rparr>"
| "apply_update full (SetLoadingState l) s = s\<lparr>loadingState := l\<rparr>"
| "apply_update full (SetAnalysisData d) s = s\<lparr>analysisData := Some d\<rparr>"
| "apply_update full (SetShowAnalysis b) s = s\<lparr>showAnalysis := b\<rparr>"
| "apply_update full (SetIsListening b) s = s\<lparr>isListening := b\<rparr>"
| "apply_update full _ s = s"

text \<open>
  The component between renders: the state of the last render, the updates issued since
  and not yet run, and the variable \<open>fullResponseText\<close> of the send in progress.
  An issued update joins the queue; a ref and the variable change at once; a render runs
  the queue in order, every mapping update reading the variable as it is then.
\<close>

record react =
  committed :: App
  queue :: "effect list"
  fullResponseText :: jsstring

fun step :: "effect \<Rightarrow> react \<Rightarrow> react" where
  "step Render m =
     m\<lparr>committed := fold (apply_update (fullResponseText m)) (queue m) (committed m),
       queue := []\<rparr>"
| "step (FullResponseText_add t) m = m\<lparr>fullResponseText := fullResponseText m @ t\<rparr>"
| "step (SetBaseTextRef t) m = m\<lparr>committed := (committed m)\<lparr>baseTextRef := t\<rparr>\<rparr>"
| "step SetRecognitionRef m = m\<lparr>committed := (committed m)\<lparr>recognitionRef := True\<rparr>\<rparr>"
| "step e m = (if is_update e then m\<lparr>queue := queue m @ [e]\<rparr> else m)"

definition exec :: "effect list \<Rightarrow> react \<Rightarrow> react" where
  "exec effs m = fold step effs m"

text \<open>A rendered state with nothing pending; the variable as the handler declares it.\<close>

definition fresh :: "App \<Rightarrow> react" where
  "fresh s = \<lparr>committed = s, queue = [], fullResponseText = []\<rparr>"

text \<open>The state React shows when it renders after the effects \<open>effs\<close>, issued on \<open>s\<close>.\<close>

definition run :: "effect list \<Rightarrow> App \<Rightarrow> App" where
  "run effs s = committed (exec (effs @ [Render]) (fresh s))"

text \<open>The states shown by the renders of a run, in order.\<close>

fun renders :: "effect list \<Rightarrow> react \<Rightarrow> App list" where
  "renders [] m = []"
| "renders (e # es) m =
     (if e = Render then committed (step e m) # renders es (step e m)
      else renders es (step e m))"

text \<open>What a render would show if the variable held \<open>full\<close>.\<close>

definition flush_with :: "jsstring \<Rightarrow> react \<Rightarrow> App" where
  "flush_with full m = fold (apply_update full) (queue m) (committed m)"

section \<open>Mounting the component\<close>

definition greetingText :: jsstring where
  "greetingText =
     ascii ''Hello lovely! '' @ [0xE2, 0x153, 0xA8] @
     ascii '' I'm your MindfulMate. I'm here to listen to you with an open heart '' @
     [0xF0, 0x178, 0x2019, 0x153] @ ascii ''. How are you feeling today?''"

definition initialGreeting :: "nat \<Rightarrow> Message" where
  "initialGreeting now =
     \<lparr>id_m = ascii ''init-1'', role = Model, text_m = greetingText, timestamp = now,
      isError = None\<rparr>"

text \<open>The values given to \<open>useState\<close> and \<open>useRef\<close>.\<close>

definition useState_initial :: App where
  "useState_initial =
     \<lparr>messages = [], inputText = [], loadingState = IDLE, analysisData = None,
      showAnalysis = False, isListening = False, recognitionRef = False, baseTextRef = []\<rparr>"

text \<open>
  The two mount effects: the greeting with a fresh session, and the recogniser, created
  only where the host offers a constructor for it (\<open>speech\<close>).
\<close>

definition App_mount :: "nat \<Rightarrow> bool \<Rightarrow> effect list" where
  "App_mount now speech =
     [SetMessages_value [initialGreeting now], ResetChatSession] @
     (if speech then [SetRecognitionRef] else [])"

definition App_initial :: "nat \<Rightarrow> bool \<Rightarrow> App" where
  "App_initial now speech = run (App_mount now speech) useState_initial"

section \<open>Speech capture\<close>

datatype error = TypeError

text \<open>
  The loop of \<open>recognition.onresult\<close>: \<open>event.results[i][0].transcript\<close> of every result,
  concatenated. A result is the list of its alternatives; reading alternative 0 of a
  result that has none raises.
\<close>

fun transcript_loop :: "jsstring \<Rightarrow> jsstring list list \<Rightarrow> error + jsstring" where
  "transcript_loop transcript [] = Inr transcript"
| "transcript_loop transcript (r # rs) =
     (case r of [] \<Rightarrow> Inl TypeError
      | a # _ \<Rightarrow> transcript_loop (transcript @ a) rs)"

definition separator :: "jsstring \<Rightarrow> jsstring" where
  "separator base = (if base \<noteq> [] \<and> \<not> endsWith base [0x20] then [0x20] else [])"

definition onresult :: "jsstring list list \<Rightarrow> App \<Rightarrow> error + effect list" where
  "onresult results s =
     (case transcript_loop [] results of
        Inl e \<Rightarrow> Inl e
      | Inr transcript \<Rightarrow>
          Inr [SetInputText (baseTextRef s @ separator (baseTextRef s) @ transcript)])"

definition onstart :: "effect list" where
  "onstart = [SetIsListening True]"

definition onend :: "effect list" where
  "onend = [SetIsListening False]"

definition toggleVoiceInput :: "App \<Rightarrow> effect list" where
  "toggleVoiceInput s =
     (if \<not> recognitionRef s then [Alert]
      else if isListening s then [RecognitionStop]
      else [SetBaseTextRef (inputText s), RecognitionStart])"

section \<open>Sending a message\<close>

text \<open>
  The module \<open>services/geminiService\<close> is a collaborator whose code is not at hand, so
  what it answers is an input of the handlers. For a send: obtaining the session raises,
  or the call to send is rejected, or it gives a stream that yields chunks and then either
  ends or raises. A chunk is its \<open>text\<close>, which may be undefined, together with
  the timing of its arrival: whether React has rendered since the handler's previous
  update when the chunk arrives (it has not when chunks arrive back to back).
\<close>

record chunk =
  rendered_before :: bool
  chunk_text :: "jsstring option"

datatype stream_end = Exhausted | Raised

datatype send_outcome = SessionRaised | SendRejected | SendStream "chunk list" stream_end

text \<open>The six readings of \<open>Date.now()\<close> of one run of the handler, in program order.\<close>

record send_clock =
  t_user_id :: nat
  t_user_ts :: nat
  t_resp_id :: nat
  t_resp_ts :: nat
  t_err_id :: nat
  t_err_ts :: nat

definition newMessage :: "send_clock \<Rightarrow> jsstring \<Rightarrow> Message" where
  "newMessage clk userText =
     \<lparr>id_m = toString (t_user_id clk), role = User, text_m = userText,
      timestamp = t_user_ts clk, isError = None\<rparr>"

definition responseId :: "send_clock \<Rightarrow> jsstring" where
  "responseId clk = toString (t_resp_id clk + 1)"

definition placeholder :: "send_clock \<Rightarrow> Message" where
  "placeholder clk =
     \<lparr>id_m = responseId clk, role = Model, text_m = [], timestamp = t_resp_ts clk,
      isError = None\<rparr>"

definition apologyText :: jsstring where
  "apologyText =
     ascii ''Oh no! '' @ [0xF0, 0x178, 0xA5, 0x20AC] @
     ascii '' I'm having trouble connecting right now. Please try again in a moment.''"

definition apology :: "send_clock \<Rightarrow> Message" where
  "apology clk =
     \<lparr>id_m = toString (t_err_id clk), role = Model, text_m = apologyText,
      timestamp = t_err_ts clk, isError = Some True\<rparr>"

definition textChunk :: "chunk \<Rightarrow> jsstring" where
  "textChunk c = (case chunk_text c of None \<Rightarrow> [] | Some t \<Rightarrow> t)"

text \<open>
  The body of \<open>for await\<close>, once per chunk: the variable grows by the chunk's text and
  the mapping update for the reply's id is issued.
\<close>

fun stream_loop :: "jsstring \<Rightarrow> chunk list \<Rightarrow> effect list" where
  "stream_loop rid [] = []"
| "stream_loop rid (c # cs) =
     (if rendered_before c then [Render] else []) @
     [FullResponseText_add (textChunk c), SetMessages_map rid] @
     stream_loop rid cs"

text \<open>
  The handler up to the call of \<open>getChatSession\<close> in its \<open>try\<close> block; nothing at all
  when the guard returns.
\<close>

definition handleSendMessage_begin :: "send_clock \<Rightarrow> App \<Rightarrow> effect list" where
  "handleSendMessage_begin clk s =
     (if trim (inputText s) = [] \<or> loadingState s \<noteq> IDLE then []
      else
        (if isListening s \<and> recognitionRef s then [RecognitionStop] else []) @
        [SetInputText [],
         SetMessages_append (newMessage clk (trim (inputText s))),
         SetLoadingState SENDING,
         GetChatSession])"

definition handleSendMessage_catch :: "send_clock \<Rightarrow> effect list" where
  "handleSendMessage_catch clk = [ConsoleError, SetMessages_append (apology clk)]"

definition handleSendMessage_finally :: "effect list" where
  "handleSendMessage_finally = [SetLoadingState IDLE]"

text \<open>
  The rest of the \<open>try\<close> block with \<open>catch\<close> and \<open>finally\<close>: the call to send, awaited,
  the placeholder, the loop over the stream.
\<close>

definition handleSendMessage_resume ::
  "send_clock \<Rightarrow> jsstring \<Rightarrow> send_outcome \<Rightarrow> effect list" where
  "handleSendMessage_resume clk userText outcome =
     (case outcome of
        SessionRaised \<Rightarrow> handleSendMessage_catch clk
      | SendRejected \<Rightarrow> SendMessageStream userText # handleSendMessage_catch clk
      | SendStream chunks e \<Rightarrow>
          SendMessageStream userText #
          SetMessages_append (placeholder clk) #
          stream_loop (responseId clk) chunks @
          (case e of Exhausted \<Rightarrow> [] | Raised \<Rightarrow> handleSendMessage_catch clk)) @
     handleSendMessage_finally"

definition handleSendMessage ::
  "send_clock \<Rightarrow> (jsstring \<Rightarrow> send_outcome) \<Rightarrow> App \<Rightarrow> effect list" where
  "handleSendMessage clk chat s =
     (if trim (inputText s) = [] \<or> loadingState s \<noteq> IDLE then []
      else handleSendMessage_begin clk s @
           handleSendMessage_resume clk (trim (inputText s)) (chat (trim (inputText s))))"

section \<open>Analysing the conversation\<close>

text \<open>The analysis operation is rejected, or it resolves to analysis data.\<close>

datatype analysis_outcome = AnalysisRejected | AnalysisResolved AnalysisData

definition validHistory :: "Message list \<Rightarrow> Message list" where
  "validHistory ms = filter (\<lambda>m. isError m \<noteq> Some True \<and> trim (text_m m) \<noteq> []) ms"

text \<open>
  The handler up to its \<open>await\<close>, the call of the analysis operation included, and the
  handler after it.
\<close>

definition handleAnalyze_begin :: "App \<Rightarrow> effect list" where
  "handleAnalyze_begin s =
     (if length (messages s) < 3 then []
      else [SetShowAnalysis True, SetLoadingState ANALYZING,
            AnalyzeConversation (validHistory (messages s))])"

definition handleAnalyze_resume :: "analysis_outcome \<Rightarrow> effect list" where
  "handleAnalyze_resume outcome =
     (case outcome of
        AnalysisResolved data \<Rightarrow> [SetAnalysisData data]
      | AnalysisRejected \<Rightarrow> [ConsoleError]) @
     [SetLoadingState IDLE]"

definition handleAnalyze :: "(Message list \<Rightarrow> analysis_outcome) \<Rightarrow> App \<Rightarrow> effect list" where
  "handleAnalyze analyzeConversation s =
     (if length (messages s) < 3 then []
      else handleAnalyze_begin s @
           handleAnalyze_resume (analyzeConversation (validHistory (messages s))))"

text \<open>The \<open>disabled\<close> attributes of the two buttons.\<close>

definition send_disabled :: "App \<Rightarrow> bool" where
  "send_disabled s \<longleftrightarrow> trim (inputText s) = [] \<or> loadingState s \<noteq> IDLE"

definition analyze_disabled :: "App \<Rightarrow> bool" where
  "analyze_disabled s \<longleftrightarrow> length (messages s) < 3 \<or> loadingState s = ANALYZING"

text \<open>The textarea's \<open>onChange\<close>.\<close>

definition onChange :: "jsstring \<Rightarrow> effect list" where
  "onChange v = [SetInputText v]"

section \<open>Concrete inputs\<close>

definition clock0 :: send_clock where
  "clock0 = \<lparr>t_user_id = 1000, t_user_ts = 1000, t_resp_id = 1200, t_resp_ts = 1200,
             t_err_id = 1300, t_err_ts = 1300\<rparr>"

text \<open>The mounted component after the user has typed \<open>hi\<close>.\<close>

definition typed_hi :: App where
  "typed_hi = run (onChange (ascii ''hi'')) (App_initial 0 False)"

definition insight0 :: AnalysisData where
  "insight0 =
     \<lparr>mood = ascii ''calm'', symptoms = [], solutions = [], summary = [], disclaimer = []\<rparr>"

definition analysis_resolves :: "Message list \<Rightarrow> analysis_outcome" where
  "analysis_resolves h = AnalysisResolved insight0"

definition analysis_rejects :: "Message list \<Rightarrow> analysis_outcome" where
  "analysis_rejects h = AnalysisRejected"

definition send_rejects :: "jsstring \<Rightarrow> send_outcome" where
  "send_rejects t = SendRejected"

definition stream_raises_at_once :: "jsstring \<Rightarrow> send_outcome" where
  "stream_raises_at_once t = SendStream [] Raised"

text \<open>The chunks \<open>Hel\<close>, \<open>lo\<close>: with a render before each, and arriving back to back.\<close>

definition Hel_lo :: "chunk list" where
  "Hel_lo =
     [\<lparr>rendered_before = True, chunk_text = Some (ascii ''Hel'')\<rparr>,
      \<lparr>rendered_before = True, chunk_text = Some (ascii ''lo'')\<rparr>]"

definition stream_Hel_lo :: "jsstring \<Rightarrow> send_outcome" where
  "stream_Hel_lo t = SendStream Hel_lo Exhausted"

definition Hel_lo_back_to_back :: "chunk list" where
  "Hel_lo_back_to_back =
     [\<lparr>rendered_before = True, chunk_text = Some (ascii ''Hel'')\<rparr>,
      \<lparr>rendered_before = False, chunk_text = Some (ascii ''lo'')\<rparr>]"

definition stream_back_to_back :: "jsstring \<Rightarrow> send_outcome" where
  "stream_back_to_back t = SendStream Hel_lo_back_to_back Exhausted"


text \<open>The conversation after one completed exchange, and after one successful analysis.\<close>

definition three_messages :: App where
  "three_messages = run (handleSendMessage clock0 stream_Hel_lo typed_hi) typed_hi"

definition analysed_once :: App where
  "analysed_once = run (handleAnalyze analysis_resolves three_messages) three_messages"

text \<open>
  The component in the middle of a send: the submit has run and the stream has just been
  obtained, so the placeholder is in place and no chunk has arrived yet.
\<close>

definition streaming :: App where
  "streaming =
     run (handleSendMessage_begin clock0 typed_hi @
          [SendMessageStream (ascii ''hi''), SetMessages_append (placeholder clock0)])
       typed_hi"

section \<open>Observing what a handler issues\<close>

fun is_AnalyzeConversation :: "effect \<Rightarrow> bool" where
  "is_AnalyzeConversation (AnalyzeConversation h) = True"
| "is_AnalyzeConversation _ = False"

text \<open>
  The four side effects of a submit that the specification orders, read off the
  handler's issued updates and calls.
\<close>

datatype side_effect = AppendUserMessage | ClearDraft | AppendPlaceholder | InvokeSend

fun side_effect_of :: "effect \<Rightarrow> side_effect option" where
  "side_effect_of (SetMessages_append m) =
     (if role m = User then Some AppendUserMessage
      else if text_m m = [] then Some AppendPlaceholder else None)"
| "side_effect_of (SetInputText t) = (if t = [] then Some ClearDraft else None)"
| "side_effect_of (SendMessageStream t) = Some InvokeSend"
| "side_effect_of _ = None"

fun side_effects :: "effect list \<Rightarrow> side_effect list" where
  "side_effects [] = []"
| "side_effects (e # es) =
     (case side_effect_of e of None \<Rightarrow> side_effects es | Some x \<Rightarrow> x # side_effects es)"

fun is_SetMessages_append :: "effect \<Rightarrow> bool" where
  "is_SetMessages_append (SetMessages_append m) = True"
| "is_SetMessages_append _ = False"

fun is_SetLoadingState :: "effect \<Rightarrow> bool" where
  "is_SetLoadingState (SetLoadingState l) = True"
| "is_SetLoadingState _ = False"

text \<open>
  How a message list may differ from an earlier one: it is at least as long, and at every
  earlier position the message is the same, or it has the id \<open>rid\<close> and differs in
  its text at most. The updates that keep the history in this sense are all but the plain
  replacement of the list, with texts rewritten only under the id \<open>rid\<close>.
\<close>

definition same_but_text :: "Message \<Rightarrow> Message \<Rightarrow> bool" where
  "same_but_text m m' \<longleftrightarrow>
     id_m m' = id_m m \<and> role m' = role m \<and> timestamp m' = timestamp m \<and>
     isError m' = isError m"

definition grows_by :: "jsstring \<Rightarrow> Message list \<Rightarrow> Message list \<Rightarrow> bool" where
  "grows_by rid ms ms' \<longleftrightarrow>
     length ms \<le> length ms' \<and>
     list_all2 (\<lambda>m m'. m' = m \<or> (id_m m = rid \<and> same_but_text m m'))
       ms (take (length ms) ms')"

fun keeps_history :: "jsstring \<Rightarrow> effect \<Rightarrow> bool" where
  "keeps_history rid (SetMessages_value ms) = False"
| "keeps_history rid (SetMessages_map r) = (r = rid)"
| "keeps_history rid _ = True"

text \<open>The text of the last message at each render of a run, the closing render included.\<close>

definition shown_texts :: "effect list \<Rightarrow> App \<Rightarrow> jsstring list" where
  "shown_texts effs s =
     map (\<lambda>a. text_m (last (messages a))) (renders (effs @ [Render]) (fresh s))"

section \<open>Basic facts\<close>

declare step.simps [simp del]

lemma exec_Nil [simp]: "exec [] m = m"
  by (simp add: exec_def)

lemma exec_Cons [simp]: "exec (e # es) m = exec es (step e m)"
  by (simp add: exec_def)

lemma exec_append [simp]: "exec (es @ fs) m = exec fs (exec es m)"
  by (simp add: exec_def)

lemma flush_with_fresh [simp]: "flush_with full (fresh s) = s"
  by (simp add: flush_with_def fresh_def)

lemma run_flush:
  "run effs s = flush_with (fullResponseText (exec effs (fresh s))) (exec effs (fresh s))"
  by (simp add: run_def flush_with_def step.simps)

lemma run_Nil [simp]: "run [] s = s"
  by (simp add: run_def fresh_def step.simps)

text \<open>What one effect does to the state a render would show.\<close>

lemma flush_with_Render: "flush_with full (step Render m) = flush_with (fullResponseText m) m"
  by (simp add: flush_with_def step.simps)

lemma flush_with_update:
  "is_update e \<Longrightarrow> flush_with full (step e m) = apply_update full e (flush_with full m)"
  by (cases e) (simp_all add: flush_with_def step.simps)

lemma fold_update_baseTextRef:
  "fold (apply_update full) q (a\<lparr>baseTextRef := t\<rparr>) =
     (fold (apply_update full) q a)\<lparr>baseTextRef := t\<rparr>"
proof (induction q arbitrary: a)
  case Nil
  show ?case by simp
next
  case (Cons e q)
  have "apply_update full e (a\<lparr>baseTextRef := t\<rparr>) = (apply_update full e a)\<lparr>baseTextRef := t\<rparr>"
    by (cases e) simp_all
  with Cons show ?case by simp
qed

lemma fold_update_recognitionRef:
  "fold (apply_update full) q (a\<lparr>recognitionRef := b\<rparr>) =
     (fold (apply_update full) q a)\<lparr>recognitionRef := b\<rparr>"
proof (induction q arbitrary: a)
  case Nil
  show ?case by simp
next
  case (Cons e q)
  have "apply_update full e (a\<lparr>recognitionRef := b\<rparr>) =
        (apply_update full e a)\<lparr>recognitionRef := b\<rparr>"
    by (cases e) simp_all
  with Cons show ?case by simp
qed

lemma flush_with_other:
  assumes "\<not> is_update e" and "e \<noteq> Render"
  shows "messages (flush_with full (step e m)) = messages (flush_with full m)"
    and "loadingState (flush_with full (step e m)) = loadingState (flush_with full m)"
  using assms
  by (cases e; simp add: flush_with_def step.simps fold_update_baseTextRef
      fold_update_recognitionRef)+

text \<open>A string trims to the empty string exactly when it holds nothing but white space.\<close>

lemma trim_empty_iff: "trim s = [] \<longleftrightarrow> (\<forall>c \<in> set s. isWhiteSpace c)"
proof
  assume "trim s = []"
  then have a: "\<forall>c \<in> set (dropWhile isWhiteSpace s). isWhiteSpace c"
    by (simp add: trim_def)
  have "dropWhile isWhiteSpace s = []"
  proof (rule ccontr)
    assume n: "dropWhile isWhiteSpace s \<noteq> []"
    then have "\<not> isWhiteSpace (hd (dropWhile isWhiteSpace s))" by (rule hd_dropWhile)
    moreover have "hd (dropWhile isWhiteSpace s) \<in> set (dropWhile isWhiteSpace s)"
      using n by simp
    ultimately show False using a by blast
  qed
  then show "\<forall>c \<in> set s. isWhiteSpace c" by simp
next
  assume "\<forall>c \<in> set s. isWhiteSpace c"
  then have d: "dropWhile isWhiteSpace s = []" by simp
  show "trim s = []" unfolding trim_def d by simp
qed

lemma endsWith_space: "endsWith b [0x20] \<longleftrightarrow> b \<noteq> [] \<and> last b = 0x20"
proof (cases b rule: rev_cases)
  case Nil
  then show ?thesis by (simp add: endsWith_def)
next
  case (snoc ys y)
  then show ?thesis by (simp add: endsWith_def)
qed

lemma transcript_loop_concat:
  "\<forall>r \<in> set rs. r \<noteq> [] \<Longrightarrow> transcript_loop acc rs = Inr (acc @ concat (map hd rs))"
proof (induction rs arbitrary: acc)
  case Nil
  then show ?case by simp
next
  case (Cons r rs)
  then obtain a as where r: "r = a # as" by (cases r) auto
  from Cons show ?case by (simp add: r)
qed

lemmas react_defs = run_def fresh_def step.simps

lemmas example_defs = clock0_def typed_hi_def onChange_def App_initial_def App_mount_def
  useState_initial_def insight0_def analysis_resolves_def
  analysis_rejects_def send_rejects_def stream_raises_at_once_def stream_Hel_lo_def
  Hel_lo_def stream_back_to_back_def Hel_lo_back_to_back_def

lemmas handler_defs = handleSendMessage_def handleSendMessage_begin_def
  handleSendMessage_resume_def handleSendMessage_catch_def handleSendMessage_finally_def
  handleAnalyze_def handleAnalyze_begin_def handleAnalyze_resume_def validHistory_def
  newMessage_def placeholder_def apology_def responseId_def textChunk_def

lemmas string_defs = ascii_def trim_def isWhiteSpace_def

lemma initialGreeting_fields [simp]:
  "id_m (initialGreeting now) = ascii ''init-1''"
  "role (initialGreeting now) = Model"
  "text_m (initialGreeting now) = greetingText"
  "timestamp (initialGreeting now) = now"
  "isError (initialGreeting now) = None"
  by (simp_all add: initialGreeting_def)

lemma greeting_nonblank: "trim greetingText \<noteq> []"
  by (simp add: string_defs greetingText_def)

lemma falsy_iff: "b \<noteq> Some True \<longleftrightarrow> b = None \<or> b = Some False"
  by (cases b) auto

lemma side_effects_append [simp]: "side_effects (xs @ ys) = side_effects xs @ side_effects ys"
  by (induction xs) (simp_all split: option.splits)

lemma side_effects_stream_loop [simp]: "side_effects (stream_loop rid cs) = []"
  by (induction cs) simp_all

lemma apologyText_nonempty: "apologyText \<noteq> []"
  by (simp add: apologyText_def ascii_def)

lemma typed_hi_eval:
  "typed_hi =
     \<lparr>messages = [initialGreeting 0], inputText = ascii ''hi'', loadingState = IDLE,
      analysisData = None, showAnalysis = False, isListening = False,
      recognitionRef = False, baseTextRef = []\<rparr>"
  by (simp add: example_defs react_defs)

lemma three_messages_eval:
  "three_messages =
     \<lparr>messages =
        [initialGreeting 0,
         \<lparr>id_m = ascii ''1000'', role = User, text_m = ascii ''hi'', timestamp = 1000,
          isError = None\<rparr>,
         \<lparr>id_m = ascii ''1201'', role = Model, text_m = ascii ''Hello'', timestamp = 1200,
          isError = None\<rparr>],
      inputText = [], loadingState = IDLE, analysisData = None, showAnalysis = False,
      isListening = False, recognitionRef = False, baseTextRef = []\<rparr>"
  by (simp add: three_messages_def example_defs react_defs handler_defs string_defs
      toString.simps)

lemma trim_typed_hi: "trim (inputText typed_hi) = ascii ''hi''"
  by (simp add: typed_hi_eval string_defs)

lemma typed_hi_ready: "trim (inputText typed_hi) \<noteq> [] \<and> loadingState typed_hi = IDLE"
  by (simp add: typed_hi_eval string_defs)

lemma stream_loop_append:
  "stream_loop rid (xs @ ys) = stream_loop rid xs @ stream_loop rid ys"
  by (induction xs) simp_all

lemma stream_loop_take_prefix: "prefix (stream_loop rid (take k cs)) (stream_loop rid cs)"
proof -
  have "stream_loop rid cs = stream_loop rid (take k cs @ drop k cs)" by simp
  then show ?thesis unfolding stream_loop_append [of rid "take k cs" "drop k cs"] by simp
qed

text \<open>When a render falls before chunk \<open>k\<close>, it follows the updates of the chunks before.\<close>

lemma stream_loop_render_prefix:
  assumes "k < length cs" and "rendered_before (cs ! k)"
  shows "prefix (stream_loop rid (take k cs) @ [Render]) (stream_loop rid cs)"
proof -
  have "cs = take k cs @ cs ! k # drop (Suc k) cs"
    using assms(1) by (simp add: id_take_nth_drop)
  then have "stream_loop rid cs =
      stream_loop rid (take k cs) @ stream_loop rid (cs ! k # drop (Suc k) cs)"
    using stream_loop_append [of rid "take k cs" "cs ! k # drop (Suc k) cs"] by simp
  then show ?thesis using assms(2) by (simp add: prefix_def)
qed

text \<open>Effects that do not set the activity state leave it as a render would show it.\<close>

lemma loadingState_exec_others:
  assumes "\<forall>e \<in> set es. \<not> is_SetLoadingState e"
    and "\<And>full. loadingState (flush_with full m) = l"
  shows "loadingState (flush_with full (exec es m)) = l"
  using assms
proof (induction es arbitrary: m full)
  case Nil
  then show ?case by simp
next
  case (Cons e es)
  have "loadingState (flush_with f (step e m)) = l" for f
  proof (cases "e = Render")
    case True
    then show ?thesis using Cons.prems(2) by (simp add: flush_with_Render)
  next
    case False
    show ?thesis
    proof (cases "is_update e")
      case True
      have "loadingState (apply_update f e a) = loadingState a" for a
        using Cons.prems(1) by (cases e) simp_all
      then show ?thesis using True Cons.prems(2) by (simp add: flush_with_update)
    next
      case no: False
      show ?thesis using flush_with_other(2) [OF no False] Cons.prems(2) by simp
    qed
  qed
  then show ?case using Cons by simp
qed

lemma stream_loop_no_SetLoadingState:
  "\<forall>e \<in> set (stream_loop rid cs). \<not> is_SetLoadingState e"
  by (induction cs) auto

lemma begin_effects:
  assumes "trim (inputText s) \<noteq> []" and "loadingState s = IDLE"
  shows "flush_with full (exec (handleSendMessage_begin clk s) (fresh s)) =
           s\<lparr>inputText := [], messages := messages s @ [newMessage clk (trim (inputText s))],
             loadingState := SENDING\<rparr>"
  using assms by (simp add: handleSendMessage_begin_def flush_with_def fresh_def step.simps)

lemma loadingState_run_snoc: "loadingState (run (es @ [SetLoadingState l]) s) = l"
  by (simp add: run_flush flush_with_update)

lemma handleSendMessage_ends_idle:
  assumes "trim (inputText s) \<noteq> []" and "loadingState s = IDLE"
  shows "loadingState (run (handleSendMessage clk chat s) s) = IDLE"
proof -
  obtain es where "handleSendMessage clk chat s = es @ [SetLoadingState IDLE]"
    using assms
    by (simp add: handleSendMessage_def handleSendMessage_resume_def
        handleSendMessage_finally_def)
  then show ?thesis by (simp only: loadingState_run_snoc)
qed

text \<open>Messages that differ in their text at most.\<close>

lemma same_but_text_eq: "same_but_text l m \<Longrightarrow> m = l\<lparr>text_m := text_m m\<rparr>"
  by (cases l; cases m) (simp add: same_but_text_def)

text \<open>
  The loop over the stream, started where every render would show a last message that is
  \<open>l\<close> up to its text, \<open>l\<close> carrying the reply's id: this stays so, the variable has
  grown by the texts of the chunks, and once a chunk has been read every render shows
  the variable's value at that render as the text of the last message.
\<close>

lemma chunk_last:
  assumes "id_m l = rid"
    and "\<And>full. messages (flush_with full m) \<noteq> [] \<and>
                 same_but_text l (last (messages (flush_with full m)))"
  shows "messages (flush_with full
           (step (SetMessages_map rid) (step (FullResponseText_add t) m))) \<noteq> []"
    and "same_but_text l (last (messages (flush_with full
           (step (SetMessages_map rid) (step (FullResponseText_add t) m)))))"
    and "text_m (last (messages (flush_with full
           (step (SetMessages_map rid) (step (FullResponseText_add t) m))))) = full"
proof -
  let ?m1 = "step (SetMessages_map rid) (step (FullResponseText_add t) m)"
  have fl: "flush_with full ?m1 = apply_update full (SetMessages_map rid) (flush_with full m)"
    by (simp add: flush_with_def step.simps)
  have ne: "messages (flush_with full m) \<noteq> []"
    and sb: "same_but_text l (last (messages (flush_with full m)))"
    using assms(2) [of full] by simp_all
  have "id_m (last (messages (flush_with full m))) = rid"
    using sb assms(1) by (simp add: same_but_text_def)
  then have la: "last (messages (flush_with full ?m1)) =
      (last (messages (flush_with full m)))\<lparr>text_m := full\<rparr>"
    using ne by (simp add: fl last_map)
  show "messages (flush_with full ?m1) \<noteq> []" using ne by (simp add: fl)
  show "same_but_text l (last (messages (flush_with full ?m1)))"
    using sb by (simp add: la same_but_text_def)
  show "text_m (last (messages (flush_with full ?m1))) = full" by (simp add: la)
qed

lemma stream_loop_last:
  assumes "id_m l = rid"
    and "\<And>full. messages (flush_with full m) \<noteq> [] \<and>
                 same_but_text l (last (messages (flush_with full m)))"
  shows "(\<forall>full. messages (flush_with full (exec (stream_loop rid cs) m)) \<noteq> [] \<and>
            same_but_text l (last (messages (flush_with full (exec (stream_loop rid cs) m))))) \<and>
         fullResponseText (exec (stream_loop rid cs) m) =
           fullResponseText m @ concat (map textChunk cs) \<and>
         (cs \<noteq> [] \<longrightarrow>
            (\<forall>full. text_m (last (messages (flush_with full (exec (stream_loop rid cs) m)))) =
                    full))"
  using assms(2)
proof (induction cs arbitrary: m)
  case Nil
  then show ?case by simp
next
  case (Cons c cs)
  define m0 where "m0 = (if rendered_before c then step Render m else m)"
  define m1 where "m1 = step (SetMessages_map rid) (step (FullResponseText_add (textChunk c)) m0)"
  have inv0: "messages (flush_with f m0) \<noteq> [] \<and> same_but_text l (last (messages (flush_with f m0)))"
    for f
    using Cons.prems by (cases "rendered_before c") (simp_all add: m0_def flush_with_Render)
  have var0: "fullResponseText m0 = fullResponseText m"
    by (simp add: m0_def step.simps)
  have inv1: "messages (flush_with f m1) \<noteq> [] \<and> same_but_text l (last (messages (flush_with f m1)))"
    for f
    unfolding m1_def using chunk_last(1,2) [OF assms(1) inv0] by blast
  have text1: "text_m (last (messages (flush_with f m1))) = f" for f
    unfolding m1_def using chunk_last(3) [OF assms(1) inv0] by blast
  have var1: "fullResponseText m1 = fullResponseText m @ textChunk c"
    by (simp add: m1_def var0 step.simps)
  have ex: "exec (stream_loop rid (c # cs)) m = exec (stream_loop rid cs) m1"
    by (simp add: m1_def m0_def)
  have ih: "(\<forall>full. messages (flush_with full (exec (stream_loop rid cs) m1)) \<noteq> [] \<and>
            same_but_text l (last (messages (flush_with full (exec (stream_loop rid cs) m1))))) \<and>
         fullResponseText (exec (stream_loop rid cs) m1) =
           fullResponseText m1 @ concat (map textChunk cs) \<and>
         (cs \<noteq> [] \<longrightarrow>
            (\<forall>full. text_m (last (messages (flush_with full (exec (stream_loop rid cs) m1)))) =
                    full))"
    using inv1 by (rule Cons.IH)
  show ?case
  proof (cases cs)
    case Nil
    then show ?thesis unfolding ex using inv1 text1 var1 by simp
  next
    case (Cons c' cs')
    then show ?thesis unfolding ex using ih var1 by simp
  qed
qed

lemma grows_by_nth:
  "grows_by rid ms ms' \<longleftrightarrow>
     length ms \<le> length ms' \<and>
     (\<forall>i < length ms. ms' ! i = ms ! i \<or>
        (id_m (ms ! i) = rid \<and> same_but_text (ms ! i) (ms' ! i)))"
  by (auto simp: grows_by_def list_all2_conv_all_nth)

lemma grows_by_refl: "grows_by rid ms ms"
  by (simp add: grows_by_nth)

lemma grows_by_trans:
  assumes "grows_by rid a b" and "grows_by rid b c"
  shows "grows_by rid a c"
proof -
  have len: "length a \<le> length b" "length b \<le> length c"
    using assms by (simp_all add: grows_by_nth)
  have "c ! i = a ! i \<or> (id_m (a ! i) = rid \<and> same_but_text (a ! i) (c ! i))"
    if i: "i < length a" for i
  proof -
    have ab: "b ! i = a ! i \<or> (id_m (a ! i) = rid \<and> same_but_text (a ! i) (b ! i))"
      using assms(1) i by (simp add: grows_by_nth)
    have bc: "c ! i = b ! i \<or> (id_m (b ! i) = rid \<and> same_but_text (b ! i) (c ! i))"
      using assms(2) i len by (simp add: grows_by_nth)
    from ab bc show ?thesis by (auto simp: same_but_text_def)
  qed
  with len show ?thesis by (simp add: grows_by_nth)
qed


lemma grows_by_update:
  "keeps_history rid e \<Longrightarrow> grows_by rid (messages s) (messages (apply_update full e s))"
  by (cases e) (auto simp: grows_by_nth nth_append same_but_text_def)

lemma grows_by_exec:
  assumes "\<forall>e \<in> set es. keeps_history rid e"
    and "\<And>full. grows_by rid ms (messages (flush_with full m))"
  shows "grows_by rid ms (messages (flush_with full (exec es m)))"
  using assms
proof (induction es arbitrary: m full)
  case Nil
  then show ?case by simp
next
  case (Cons e es)
  have "grows_by rid ms (messages (flush_with f (step e m)))" for f
  proof (cases "e = Render")
    case True
    then show ?thesis using Cons.prems(2) by (simp add: flush_with_Render)
  next
    case False
    show ?thesis
    proof (cases "is_update e")
      case True
      have "grows_by rid (messages (flush_with f m))
              (messages (apply_update f e (flush_with f m)))"
        using Cons.prems(1) by (simp add: grows_by_update)
      with Cons.prems(2) [of f] show ?thesis
        using True grows_by_trans by (simp add: flush_with_update)
    next
      case no: False
      show ?thesis using flush_with_other(1) [OF no False] Cons.prems(2) by simp
    qed
  qed
  then show ?case using Cons by simp
qed

lemma grows_by_run:
  "\<forall>e \<in> set es. keeps_history rid e \<Longrightarrow> grows_by rid (messages s) (messages (run es s))"
  unfolding run_flush by (rule grows_by_exec) (simp_all add: grows_by_refl)

lemma stream_loop_keeps_history: "\<forall>e \<in> set (stream_loop rid cs). keeps_history rid e"
  by (induction cs) auto

lemma handlers_keep_history:
  "\<forall>e \<in> set (handleSendMessage_begin clk s0). keeps_history (responseId clk) e"
  "\<forall>e \<in> set (handleSendMessage_resume clk userText out). keeps_history (responseId clk) e"
  "\<forall>e \<in> set (handleSendMessage clk gw s0). keeps_history (responseId clk) e"
  "\<forall>e \<in> set (handleSendMessage_catch clk). keeps_history (responseId clk) e"
  "\<forall>e \<in> set handleSendMessage_finally. keeps_history (responseId clk) e"
  "\<forall>e \<in> set (handleAnalyze_begin s0). keeps_history (responseId clk) e"
  "\<forall>e \<in> set (handleAnalyze_resume aout). keeps_history (responseId clk) e"
  "\<forall>e \<in> set (handleAnalyze agw s0). keeps_history (responseId clk) e"
  using stream_loop_keeps_history [of "responseId clk"]
  by (auto simp: handleSendMessage_def handleSendMessage_begin_def
      handleSendMessage_resume_def handleSendMessage_catch_def handleSendMessage_finally_def
      handleAnalyze_def handleAnalyze_begin_def handleAnalyze_resume_def
      split: send_outcome.splits stream_end.splits analysis_outcome.splits if_splits)


lemma digit_code_unit: "d < 10 \<Longrightarrow> unat (of_nat (48 + d) :: 16 word) < 58"
  using unat_of_nat [where 'a = 16, of "48 + d"] by simp

lemma toString_digits: "\<forall>c \<in> set (toString n). unat c < 58"
proof (induction n rule: toString.induct)
  case (1 n)
  show ?case
  proof (cases "n < 10")
    case True
    then show ?thesis using digit_code_unit [of n] by (subst toString.simps) simp
  next
    case False
    have "unat (of_nat (48 + n mod 10) :: 16 word) < 58"
      by (rule digit_code_unit) simp
    with False 1 show ?thesis by (subst toString.simps) simp
  qed
qed

lemma toString_not_init: "toString n \<noteq> ascii ''init-1''"
proof
  assume "toString n = ascii ''init-1''"
  then have "(105 :: 16 word) \<in> set (toString n)" by (simp add: ascii_def)
  with toString_digits [of n] have "unat (105 :: 16 word) < 58" by blast
  then show False by simp
qed

text \<open>The length of the list grows by the number of appending updates.\<close>

lemma length_update:
  "keeps_history rid e \<Longrightarrow>
     length (messages (apply_update full e s)) =
       length (messages s) + (if is_SetMessages_append e then 1 else 0)"
  by (cases e) simp_all

lemma length_exec:
  assumes "\<forall>e \<in> set es. keeps_history rid e"
    and "\<And>full. length (messages (flush_with full m)) = n"
  shows "length (messages (flush_with full (exec es m))) =
           n + length (filter is_SetMessages_append es)"
  using assms
proof (induction es arbitrary: m full n)
  case Nil
  then show ?case by simp
next
  case (Cons e es)
  have "length (messages (flush_with f (step e m))) =
          n + (if is_SetMessages_append e then 1 else 0)" for f
  proof (cases "e = Render")
    case True
    then show ?thesis using Cons.prems(2) by (simp add: flush_with_Render)
  next
    case False
    show ?thesis
    proof (cases "is_update e")
      case True
      then show ?thesis
        using Cons.prems length_update [of rid e f "flush_with f m"]
        by (simp add: flush_with_update)
    next
      case no: False
      then have "\<not> is_SetMessages_append e" by (cases e) simp_all
      then show ?thesis using flush_with_other(1) [OF no False] Cons.prems(2) by simp
    qed
  qed
  then have "length (messages (flush_with full (exec es (step e m)))) =
      (n + (if is_SetMessages_append e then 1 else 0)) + length (filter is_SetMessages_append es)"
    using Cons.prems(1) by (intro Cons.IH) simp_all
  then show ?case by simp
qed

lemma length_run:
  "\<forall>e \<in> set es. keeps_history rid e \<Longrightarrow>
     length (messages (run es s)) = length (messages s) + length (filter is_SetMessages_append es)"
  unfolding run_flush by (rule length_exec) simp_all

lemma stream_loop_no_append [simp]: "filter is_SetMessages_append (stream_loop rid cs) = []"
  by (induction cs) simp_all

lemma messages_after_exchange:
  assumes "trim draft \<noteq> []"
  shows "\<exists>rest. messages (run (handleSendMessage clk gw (run (onChange draft) (App_initial now speech)))
                     (run (onChange draft) (App_initial now speech))) =
           initialGreeting now # rest \<and> 2 \<le> length rest"
proof -
  let ?s1 = "run (onChange draft) (App_initial now speech)"
  let ?s2 = "run (handleSendMessage clk gw ?s1) ?s1"
  have s1: "inputText ?s1 = draft" "loadingState ?s1 = IDLE" "messages ?s1 = [initialGreeting now]"
    by (simp_all add: onChange_def App_initial_def App_mount_def useState_initial_def react_defs)
  have g: "id_m (initialGreeting now) \<noteq> responseId clk"
    using toString_not_init [of "t_resp_id clk + 1"]
    by (simp add: responseId_def)
  have "grows_by (responseId clk) (messages ?s1) (messages ?s2)"
    by (rule grows_by_run) (rule handlers_keep_history)
  then have first: "messages ?s2 ! 0 = initialGreeting now"
    using g by (simp add: grows_by_nth s1)
  have "2 \<le> length (filter is_SetMessages_append (handleSendMessage clk gw ?s1))"
    using assms s1
    by (simp add: handleSendMessage_def handleSendMessage_resume_def handleSendMessage_begin_def
        handleSendMessage_catch_def handleSendMessage_finally_def
        split: send_outcome.splits stream_end.splits)
  then have len: "3 \<le> length (messages ?s2)"
    using length_run [OF handlers_keep_history(3), of clk gw ?s1 ?s1] s1 by simp
  then obtain m rest where mr: "messages ?s2 = m # rest" by (cases "messages ?s2") auto
  with first len show ?thesis by simp
qed

section \<open>Speech capture recomputes the draft\<close>

text \<open>
  C8. A transcript event sets the draft to the baseline, then one space if the baseline
  is non-empty and does not end in a space, then the transcripts of all results of the
  event in order. The event's results each carry at least one alternative.
\<close>

theorem onresult_recomputes_draft:
  assumes "\<forall>r \<in> set results. r \<noteq> []"
  shows "onresult results s =
           Inr [SetInputText
                  (baseTextRef s @
                   (if baseTextRef s \<noteq> [] \<and> last (baseTextRef s) \<noteq> 0x20 then [0x20] else []) @
                   concat (map hd results))]"
  using transcript_loop_concat [OF assms, of "[]"]
  by (simp add: onresult_def separator_def endsWith_space)

theorem onresult_recomputes_draft_witness:
  "[] \<notin> set [[ascii ''there'']] \<and>
   onresult [[ascii ''there'']] (typed_hi\<lparr>baseTextRef := ascii ''Hi''\<rparr>) =
     Inr [SetInputText (ascii ''Hi there'')]"
  using onresult_recomputes_draft [of "[[ascii ''there'']]" "typed_hi\<lparr>baseTextRef := ascii ''Hi''\<rparr>"]
  by (simp add: ascii_def)

text \<open>With an empty baseline no separator is put in front.\<close>

lemma onresult_empty_baseline:
  "onresult [[ascii ''hello'']] (typed_hi\<lparr>baseTextRef := []\<rparr>) =
     Inr [SetInputText (ascii ''hello'')]"
  by (simp add: onresult_def separator_def)

section \<open>Submitting\<close>

text \<open>
  C2. When the draft is empty or holds only white space, or the activity state is not
  idle, the submit handler issues nothing: no update, no call, the state is as before.
\<close>

theorem submit_blank_or_busy_is_noop:
  assumes "(\<forall>c \<in> set (inputText s). isWhiteSpace c) \<or> loadingState s \<noteq> IDLE"
  shows "handleSendMessage clk chat s = [] \<and>
         run (handleSendMessage clk chat s) s = s"
  using assms by (auto simp: handleSendMessage_def trim_empty_iff)

theorem submit_blank_or_busy_is_noop_witness:
  "((\<forall>c \<in> set (inputText (typed_hi\<lparr>inputText := ascii ''  ''\<rparr>)). isWhiteSpace c) \<or>
      loadingState (typed_hi\<lparr>inputText := ascii ''  ''\<rparr>) \<noteq> IDLE) \<and>
   run (handleSendMessage clock0 stream_Hel_lo (typed_hi\<lparr>inputText := ascii ''  ''\<rparr>))
       (typed_hi\<lparr>inputText := ascii ''  ''\<rparr>) = typed_hi\<lparr>inputText := ascii ''  ''\<rparr>"
  using submit_blank_or_busy_is_noop
          [of "typed_hi\<lparr>inputText := ascii ''  ''\<rparr>" clock0 stream_Hel_lo]
  by (simp add: ascii_def isWhiteSpace_def)

text \<open>
  C3 (as stated). The claimed order of the side effects of a submit: user message,
  cleared draft, placeholder, gateway call. With the draft \<open>hi\<close> and a gateway that
  streams, the handler clears the draft first and calls the gateway before it appends the
  placeholder.
\<close>

theorem submit_order_counterexample:
  "trim (inputText typed_hi) \<noteq> [] \<and> loadingState typed_hi = IDLE \<and>
   side_effects (handleSendMessage clock0 stream_Hel_lo typed_hi) =
     [ClearDraft, AppendUserMessage, InvokeSend, AppendPlaceholder] \<and>
   side_effects (handleSendMessage clock0 stream_Hel_lo typed_hi) \<noteq>
     [AppendUserMessage, ClearDraft, AppendPlaceholder, InvokeSend]"
  by (simp add: typed_hi_eval example_defs handler_defs string_defs)

text \<open>
  C3 (amended). For every non-blank draft submitted while idle, the handler clears the
  draft, appends the user message, calls the gateway's send operation once it has the
  session and, only when that call has given a stream, appends the placeholder with empty
  text; when the call is rejected, or the session could not be obtained, no placeholder
  is appended.
\<close>

theorem submit_order:
  assumes "trim (inputText s) \<noteq> []" and "loadingState s = IDLE"
  shows "side_effects (handleSendMessage clk chat s) =
           (case chat (trim (inputText s)) of
              SessionRaised \<Rightarrow> [ClearDraft, AppendUserMessage]
            | SendRejected \<Rightarrow> [ClearDraft, AppendUserMessage, InvokeSend]
            | SendStream chunks e \<Rightarrow>
                [ClearDraft, AppendUserMessage, InvokeSend, AppendPlaceholder])"
  using assms
  by (simp add: handler_defs apologyText_nonempty split: send_outcome.splits stream_end.splits)

theorem submit_order_witness:
  "side_effects (handleSendMessage clock0 send_rejects typed_hi) =
     [ClearDraft, AppendUserMessage, InvokeSend]"
  using submit_order [of typed_hi clock0 send_rejects]
  by (simp add: typed_hi_eval send_rejects_def string_defs)

section \<open>A send that fails before the first chunk\<close>

text \<open>
  C5 (as stated). Exactly one message is claimed to follow the user's message when the
  stream fails before its first chunk. With a stream that is obtained and raises at once,
  two messages follow it: the empty placeholder and the apology.
\<close>

theorem stream_failure_counterexample:
  "trim (inputText typed_hi) \<noteq> [] \<and> loadingState typed_hi = IDLE \<and>
   messages (run (handleSendMessage clock0 stream_raises_at_once typed_hi) typed_hi) =
     messages typed_hi @
       [newMessage clock0 (ascii ''hi''), placeholder clock0, apology clock0] \<and>
   length (messages (run (handleSendMessage clock0 stream_raises_at_once typed_hi) typed_hi)) \<noteq>
     length (messages typed_hi @ [newMessage clock0 (ascii ''hi'')]) + 1"
  by (simp add: typed_hi_eval example_defs handler_defs string_defs react_defs)

text \<open>
  C5 (amended). For a non-blank draft submitted while idle: when no stream is obtained
  (the session cannot be had, or the gateway call is rejected), exactly the user message
  and the apology are appended; when the stream is obtained and raises before any chunk,
  the user message, the placeholder with its empty text and the apology are appended.
  The apology carries the error flag and the fixed text, and the activity state is idle
  afterwards.
\<close>

theorem send_failure_before_first_chunk:
  assumes "trim (inputText s) \<noteq> []" and "loadingState s = IDLE"
  shows "(chat (trim (inputText s)) \<in> {SessionRaised, SendRejected} \<longrightarrow>
            messages (run (handleSendMessage clk chat s) s) =
              messages s @ [newMessage clk (trim (inputText s)), apology clk]) \<and>
         (chat (trim (inputText s)) = SendStream [] Raised \<longrightarrow>
            messages (run (handleSendMessage clk chat s) s) =
              messages s @ [newMessage clk (trim (inputText s)), placeholder clk, apology clk]) \<and>
         (chat (trim (inputText s)) \<in> {SessionRaised, SendRejected, SendStream [] Raised} \<longrightarrow>
            loadingState (run (handleSendMessage clk chat s) s) = IDLE) \<and>
         isError (apology clk) = Some True \<and> text_m (apology clk) = apologyText \<and>
         text_m (placeholder clk) = []"
  using assms
  by (auto simp: handleSendMessage_def handleSendMessage_begin_def handleSendMessage_resume_def
      handleSendMessage_catch_def handleSendMessage_finally_def apology_def placeholder_def
      react_defs)

theorem send_failure_before_first_chunk_witness:
  "messages (run (handleSendMessage clock0 send_rejects typed_hi) typed_hi) =
     messages typed_hi @ [newMessage clock0 (ascii ''hi''), apology clock0] \<and>
   loadingState (run (handleSendMessage clock0 send_rejects typed_hi) typed_hi) = IDLE"
  using send_failure_before_first_chunk [of typed_hi send_rejects clock0]
  by (simp add: typed_hi_eval send_rejects_def string_defs)

section \<open>Analysis\<close>

text \<open>
  C7. With fewer than three messages the analysis handler issues nothing and the state
  is as before. With three or more it calls the analysis operation once, on exactly the
  messages whose error flag is absent or false and whose text is not all white space, in
  their order; when that call resolves, its data is stored as the analysis result.
\<close>

theorem analyze_threshold_and_history:
  "(length (messages s) < 3 \<longrightarrow>
      handleAnalyze analyzeConversation s = [] \<and>
      run (handleAnalyze analyzeConversation s) s = s) \<and>
   (3 \<le> length (messages s) \<longrightarrow>
      filter is_AnalyzeConversation (handleAnalyze analyzeConversation s) =
        [AnalyzeConversation
           (filter (\<lambda>m. (isError m = None \<or> isError m = Some False) \<and>
                        (\<exists>c \<in> set (text_m m). \<not> isWhiteSpace c)) (messages s))] \<and>
      (\<forall>data.
         analyzeConversation
           (filter (\<lambda>m. (isError m = None \<or> isError m = Some False) \<and>
                        (\<exists>c \<in> set (text_m m). \<not> isWhiteSpace c)) (messages s)) =
           AnalysisResolved data \<longrightarrow>
         analysisData (run (handleAnalyze analyzeConversation s) s) = Some data))"
proof -
  have v: "validHistory ms =
      filter (\<lambda>m. (isError m = None \<or> isError m = Some False) \<and>
                   (\<exists>c \<in> set (text_m m). \<not> isWhiteSpace c)) ms" for ms
    unfolding validHistory_def
    by (rule filter_cong) (auto simp: trim_empty_iff falsy_iff)
  show ?thesis
    unfolding v [symmetric]
    by (auto simp: handleAnalyze_def handleAnalyze_begin_def handleAnalyze_resume_def
        react_defs split: analysis_outcome.splits)
qed

theorem analyze_threshold_and_history_witness:
  "3 \<le> length (messages three_messages) \<and>
   analysisData (run (handleAnalyze analysis_resolves three_messages) three_messages) =
     Some insight0"
  using analyze_threshold_and_history [of three_messages analysis_resolves]
  by (simp add: three_messages_eval analysis_resolves_def)

text \<open>
  C6 (as stated). After a failed analysis the result is claimed to be unset. Here an
  analysis has succeeded before; the next one fails, and the earlier data is still the
  analysis result.
\<close>

theorem analysis_failure_keeps_earlier_result:
  "3 \<le> length (messages analysed_once) \<and>
   analysis_rejects (validHistory (messages analysed_once)) = AnalysisRejected \<and>
   analysisData (run (handleAnalyze analysis_rejects analysed_once) analysed_once) =
     Some insight0"
  by (simp add: analysed_once_def three_messages_eval analysis_resolves_def
      analysis_rejects_def handleAnalyze_def handleAnalyze_begin_def handleAnalyze_resume_def
      react_defs)

text \<open>
  C6 (amended). For every analysis request on three or more messages: on success the
  analysis result is the new data, whatever it was before; on failure it is what it was
  before the request (unset only if no analysis had succeeded), no message is added, the
  overlay is open, and in both cases the activity state is idle afterwards.
\<close>

theorem analysis_result_replaced_or_kept:
  assumes "3 \<le> length (messages s)"
  shows "(analyzeConversation (validHistory (messages s)) = AnalysisResolved data \<longrightarrow>
            run (handleAnalyze analyzeConversation s) s =
              s\<lparr>showAnalysis := True, analysisData := Some data, loadingState := IDLE\<rparr>) \<and>
         (analyzeConversation (validHistory (messages s)) = AnalysisRejected \<longrightarrow>
            run (handleAnalyze analyzeConversation s) s =
              s\<lparr>showAnalysis := True, loadingState := IDLE\<rparr>)"
  using assms
  by (simp add: handleAnalyze_def handleAnalyze_begin_def handleAnalyze_resume_def react_defs)

theorem analysis_result_replaced_or_kept_witness:
  "run (handleAnalyze analysis_rejects three_messages) three_messages =
     three_messages\<lparr>showAnalysis := True, loadingState := IDLE\<rparr> \<and>
   analysisData (three_messages\<lparr>showAnalysis := True, loadingState := IDLE\<rparr>) = None"
  using analysis_result_replaced_or_kept [of three_messages analysis_rejects]
  by (simp add: three_messages_eval analysis_rejects_def)

section \<open>Streaming the reply\<close>

text \<open>
  C4 (as stated). The text of the in-flight message is claimed to pass through the
  concatenation of the first \<open>k\<close> chunks for every \<open>k\<close>, and the activity state to be
  idle only after the stream is exhausted. When \<open>lo\<close> arrives right after \<open>Hel\<close>,
  with no render in between, both mapping updates read the variable at the next render
  and the text shown goes from empty to \<open>Hello\<close>; \<open>Hel\<close> is never shown. And when an
  analysis is started and resolves in the middle of the send, the state is idle while the
  first chunk is still to come.
\<close>

theorem stream_text_counterexample:
  "shown_texts (handleSendMessage clock0 stream_back_to_back typed_hi) typed_hi =
     [[], ascii ''Hello''] \<and>
   ascii ''Hel'' \<notin> set (shown_texts (handleSendMessage clock0 stream_back_to_back typed_hi)
                          typed_hi) \<and>
   loadingState (run (stream_loop (responseId clock0) (take 1 Hel_lo))
                   (run (handleAnalyze analysis_resolves streaming) streaming)) = IDLE \<and>
   text_m (last (messages (run (stream_loop (responseId clock0) (take 1 Hel_lo))
                   (run (handleAnalyze analysis_resolves streaming) streaming)))) =
     ascii ''Hel''"
  by (simp add: shown_texts_def streaming_def typed_hi_eval example_defs handler_defs
      string_defs react_defs greeting_nonblank toString.simps)

text \<open>
  C4 (amended). For a non-blank draft submitted while idle and a stream yielding
  \<open>chunks\<close>, and every \<open>k\<close> up to their number: the effects up to the update of the
  \<open>k\<close>-th chunk are an initial part of the handler's run, and so are they with a render
  after them when one falls before the next chunk; a render at that point, whatever
  renders came before, shows as last message the placeholder with the texts of the
  first \<open>k\<close> chunks concatenated in order as its text. After a stream that ends, the
  reply's text is the concatenation of all chunk texts. In the run of the send handler
  by itself, every render from the end of the submit up to the handler's last update
  shows the activity state \<open>SENDING\<close>, and the render after the last one shows
  \<open>IDLE\<close>.
\<close>

theorem stream_text_at_render:
  assumes "trim (inputText s) \<noteq> []" and "loadingState s = IDLE"
    and "chat (trim (inputText s)) = SendStream chunks e"
    and "k \<le> length chunks"
  shows "prefix
           (handleSendMessage_begin clk s @ SendMessageStream (trim (inputText s)) #
            SetMessages_append (placeholder clk) #
            stream_loop (responseId clk) (take k chunks))
           (handleSendMessage clk chat s) \<and>
         (k < length chunks \<and> rendered_before (chunks ! k) \<longrightarrow>
            prefix
              (handleSendMessage_begin clk s @ SendMessageStream (trim (inputText s)) #
               SetMessages_append (placeholder clk) #
               stream_loop (responseId clk) (take k chunks) @ [Render])
              (handleSendMessage clk chat s)) \<and>
         last (messages (run (handleSendMessage_begin clk s @
                              SendMessageStream (trim (inputText s)) #
                              SetMessages_append (placeholder clk) #
                              stream_loop (responseId clk) (take k chunks)) s)) =
           (placeholder clk)\<lparr>text_m := concat (map textChunk (take k chunks))\<rparr> \<and>
         (e = Exhausted \<longrightarrow>
            last (messages (run (handleSendMessage clk chat s) s)) =
              (placeholder clk)\<lparr>text_m := concat (map textChunk chunks)\<rparr>) \<and>
         (\<forall>p. prefix (handleSendMessage_begin clk s) p \<and>
               strict_prefix p (handleSendMessage clk chat s) \<longrightarrow>
               loadingState (run p s) = SENDING) \<and>
         loadingState (run (handleSendMessage clk chat s) s) = IDLE"
proof -
  let ?b = "handleSendMessage_begin clk s"
  let ?open = "[SendMessageStream (trim (inputText s)), SetMessages_append (placeholder clk)]"
  let ?rid = "responseId clk"
  let ?catch = "case e of Exhausted \<Rightarrow> [] | Raised \<Rightarrow> handleSendMessage_catch clk"
  let ?body = "?open @ stream_loop ?rid chunks @ ?catch"
  let ?m0 = "exec (?b @ ?open) (fresh s)"
  have whole: "handleSendMessage clk chat s = ?b @ ?body @ [SetLoadingState IDLE]"
    using assms(1-3)
    by (simp add: handleSendMessage_def handleSendMessage_resume_def
        handleSendMessage_finally_def)
  have sending: "loadingState (flush_with f (exec ?b (fresh s))) = SENDING" for f
    by (simp add: begin_effects [OF assms(1,2)])
  have quiet: "\<forall>x \<in> set ?body. \<not> is_SetLoadingState x"
    using stream_loop_no_SetLoadingState [of ?rid chunks]
    by (auto simp: handleSendMessage_catch_def split: stream_end.splits)
  have open_msgs: "messages (flush_with f ?m0) =
      messages s @ [newMessage clk (trim (inputText s)), placeholder clk]" for f
    using assms(1,2)
    by (simp add: handleSendMessage_begin_def flush_with_def fresh_def step.simps)
  have open_var: "fullResponseText ?m0 = []"
    using assms(1,2) by (simp add: handleSendMessage_begin_def fresh_def step.simps)
  have inv0: "messages (flush_with f ?m0) \<noteq> [] \<and>
      same_but_text (placeholder clk) (last (messages (flush_with f ?m0)))" for f
    using open_msgs [of f] by (simp add: same_but_text_def)
  have rid: "id_m (placeholder clk) = ?rid" by (simp add: placeholder_def)
  have at_render: "last (messages (flush_with (fullResponseText (exec (stream_loop ?rid cs) ?m0))
                     (exec (stream_loop ?rid cs) ?m0))) =
      (placeholder clk)\<lparr>text_m := concat (map textChunk cs)\<rparr>" for cs
  proof (cases cs)
    case Nil
    then show ?thesis using open_msgs [of "[]"] open_var by (simp add: placeholder_def)
  next
    case (Cons c cs')
    let ?m = "exec (stream_loop ?rid cs) ?m0"
    from stream_loop_last [OF rid inv0, of cs]
    have sb: "same_but_text (placeholder clk) (last (messages (flush_with (fullResponseText ?m) ?m)))"
      and var: "fullResponseText ?m = concat (map textChunk cs)"
      and shown: "text_m (last (messages (flush_with (fullResponseText ?m) ?m))) = fullResponseText ?m"
      using Cons open_var by simp_all
    from same_but_text_eq [OF sb] shown var show ?thesis by metis
  qed
  have c1: "prefix (?b @ SendMessageStream (trim (inputText s)) #
                SetMessages_append (placeholder clk) # stream_loop ?rid (take k chunks))
          (handleSendMessage clk chat s)"
    unfolding whole using stream_loop_take_prefix [of ?rid k chunks]
    by (auto simp: prefix_def)
  have c2: "prefix (?b @ SendMessageStream (trim (inputText s)) #
                SetMessages_append (placeholder clk) # stream_loop ?rid (take k chunks) @ [Render])
          (handleSendMessage clk chat s)"
    if "k < length chunks \<and> rendered_before (chunks ! k)"
    unfolding whole using stream_loop_render_prefix [of k chunks ?rid] that
    by (auto simp: prefix_def)
  have c3: "last (messages (run (?b @ SendMessageStream (trim (inputText s)) #
                SetMessages_append (placeholder clk) # stream_loop ?rid (take k chunks)) s)) =
          (placeholder clk)\<lparr>text_m := concat (map textChunk (take k chunks))\<rparr>"
    using at_render [of "take k chunks"] by (simp add: run_flush)
  have c4: "last (messages (run (handleSendMessage clk chat s) s)) =
              (placeholder clk)\<lparr>text_m := concat (map textChunk chunks)\<rparr>"
    if "e = Exhausted"
    using at_render [of chunks] that
    by (simp add: whole run_flush flush_with_update) (simp add: step.simps)
  have c5: "loadingState (run p s) = SENDING"
    if p: "prefix ?b p \<and> strict_prefix p (handleSendMessage clk chat s)" for p
  proof -
    from p obtain q where q: "p = ?b @ q" by (auto simp: prefix_def)
    with p have "strict_prefix q (?body @ [SetLoadingState IDLE])"
      unfolding whole by (simp add: strict_prefix_def)
    then have "prefix q ?body"
      by (metis prefix_order.less_le prefix_snoc)
    then have "set q \<subseteq> set ?body" by (rule set_mono_prefix)
    with quiet have "\<forall>x \<in> set q. \<not> is_SetLoadingState x" by blast
    then have "loadingState (flush_with f (exec q (exec ?b (fresh s)))) = SENDING" for f
      using sending by (rule loadingState_exec_others)
    then show ?thesis by (simp add: q run_flush)
  qed
  have c6: "loadingState (run (handleSendMessage clk chat s) s) = IDLE"
    using assms(1,2) by (rule handleSendMessage_ends_idle)
  from c1 c2 c3 c4 c5 c6 show ?thesis by blast
qed

theorem stream_text_at_render_witness:
  "text_m (last (messages (run (handleSendMessage_begin clock0 typed_hi @
                        SendMessageStream (ascii ''hi'') #
                        SetMessages_append (placeholder clock0) #
                        stream_loop (responseId clock0) (take 1 Hel_lo)) typed_hi))) =
     ascii ''Hel'' \<and>
   loadingState (run (handleSendMessage clock0 stream_Hel_lo typed_hi) typed_hi) = IDLE"
  using stream_text_at_render [of typed_hi stream_Hel_lo Hel_lo Exhausted 1 clock0]
    typed_hi_ready trim_typed_hi
  by (simp add: stream_Hel_lo_def Hel_lo_def textChunk_def ascii_def)

text \<open>
  With a render before each of the chunks \<open>Hel\<close>, \<open>lo\<close> the renders show the empty
  text, then \<open>Hel\<close>, then \<open>Hello\<close>.
\<close>

lemma Hel_lo_passage:
  "shown_texts (handleSendMessage clock0 stream_Hel_lo typed_hi) typed_hi =
     [[], ascii ''Hel'', ascii ''Hello'']"
  by (simp add: shown_texts_def typed_hi_eval example_defs handler_defs string_defs
      react_defs toString.simps)

section \<open>The conversation only grows\<close>




section \<open>The greeting\<close>

text \<open>
  C10. After mounting, the conversation is exactly the greeting: a model message with
  the fixed text, which is not blank, and no error flag; analysis is not yet available.
  After one exchange, whatever the gateway answered to a non-blank draft, there are at
  least three messages, the analysis button is enabled, and the history the analysis
  handler passes to the analysis operation starts with the greeting.
\<close>

theorem greeting_counts_towards_analysis:
  "messages (App_initial now speech) = [initialGreeting now] \<and>
   role (initialGreeting now) = Model \<and>
   text_m (initialGreeting now) = greetingText \<and>
   (\<exists>c \<in> set greetingText. \<not> isWhiteSpace c) \<and>
   isError (initialGreeting now) = None \<and>
   analyze_disabled (App_initial now speech) \<and>
   handleAnalyze_begin (App_initial now speech) = [] \<and>
   ((\<exists>c \<in> set draft. \<not> isWhiteSpace c) \<longrightarrow>
      3 \<le> length (messages (run (handleSendMessage clk chat
                                    (run (onChange draft) (App_initial now speech)))
                               (run (onChange draft) (App_initial now speech)))) \<and>
      \<not> analyze_disabled (run (handleSendMessage clk chat
                                    (run (onChange draft) (App_initial now speech)))
                               (run (onChange draft) (App_initial now speech))) \<and>
      (\<exists>history.
         handleAnalyze_begin (run (handleSendMessage clk chat
                                    (run (onChange draft) (App_initial now speech)))
                               (run (onChange draft) (App_initial now speech))) =
           [SetShowAnalysis True, SetLoadingState ANALYZING, AnalyzeConversation history] \<and>
         hd history = initialGreeting now \<and> initialGreeting now \<in> set history))"
proof (intro conjI impI)
  show "messages (App_initial now speech) = [initialGreeting now]"
    by (simp add: App_initial_def App_mount_def useState_initial_def react_defs)
  then show "analyze_disabled (App_initial now speech)"
    and "handleAnalyze_begin (App_initial now speech) = []"
    by (simp_all add: analyze_disabled_def handleAnalyze_begin_def)
  show "role (initialGreeting now) = Model" and "text_m (initialGreeting now) = greetingText"
    and "isError (initialGreeting now) = None"
    by simp_all
  show nb: "\<exists>c \<in> set greetingText. \<not> isWhiteSpace c"
    using greeting_nonblank by (simp add: trim_empty_iff)
  let ?s1 = "run (onChange draft) (App_initial now speech)"
  let ?s2 = "run (handleSendMessage clk chat ?s1) ?s1"
  assume "\<exists>c \<in> set draft. \<not> isWhiteSpace c"
  then have nonblank: "trim draft \<noteq> []" by (simp add: trim_empty_iff)
  then obtain rest where rest: "messages ?s2 = initialGreeting now # rest" "2 \<le> length rest"
    using messages_after_exchange [of draft clk chat now speech] by blast
  have "inputText ?s1 = draft" and "loadingState ?s1 = IDLE"
    by (simp_all add: onChange_def App_initial_def App_mount_def useState_initial_def react_defs)
  with nonblank have idle: "loadingState ?s2 = IDLE"
    by (simp add: handleSendMessage_ends_idle)
  show "3 \<le> length (messages ?s2)" using rest by simp
  then show "\<not> analyze_disabled ?s2" using idle by (simp add: analyze_disabled_def)
  have v: "validHistory (messages ?s2) = initialGreeting now # validHistory rest"
    using greeting_nonblank by (simp add: rest validHistory_def)
  show "\<exists>history. handleAnalyze_begin ?s2 =
           [SetShowAnalysis True, SetLoadingState ANALYZING, AnalyzeConversation history] \<and>
         hd history = initialGreeting now \<and> initialGreeting now \<in> set history"
    using \<open>3 \<le> length (messages ?s2)\<close> by (simp add: handleAnalyze_begin_def v)
qed

theorem greeting_counts_towards_analysis_witness:
  "3 \<le> length (messages three_messages) \<and> \<not> analyze_disabled three_messages"
proof -
  have nonblank: "\<exists>c \<in> set (ascii ''hi''). \<not> isWhiteSpace c"
    by (simp add: ascii_def isWhiteSpace_def)
  from greeting_counts_towards_analysis [of 0 False "ascii ''hi''" clock0 stream_Hel_lo] nonblank
  show ?thesis unfolding three_messages_def typed_hi_def by blast
qed

section \<open>Analysis is not gated behind the idle state\<close>

text \<open>
  C1. Both actions are to be refused unless the activity state is idle. The submit
  handler does refuse (C2); the analysis handler checks the number of messages only, and
  its button is disabled while analysing but not while sending. In the middle of a send
  (three messages, state \<open>SENDING\<close>) the button is enabled and the handler runs: the
  state becomes \<open>ANALYZING\<close>, and when the analysis resolves it becomes \<open>IDLE\<close>
  while the stream of the send is still open, so that a new draft can be submitted.
\<close>

theorem analyze_not_gated_while_sending:
  "prefix (handleSendMessage_begin clock0 typed_hi @
           [SendMessageStream (ascii ''hi''), SetMessages_append (placeholder clock0)])
     (handleSendMessage clock0 stream_Hel_lo typed_hi) \<and>
   loadingState streaming = SENDING \<and>
   length (messages streaming) = 3 \<and>
   \<not> analyze_disabled streaming \<and>
   handleAnalyze analysis_resolves streaming \<noteq> [] \<and>
   loadingState (run (handleAnalyze_begin streaming) streaming) = ANALYZING \<and>
   run (handleAnalyze analysis_resolves streaming) streaming =
     streaming\<lparr>showAnalysis := True, analysisData := Some insight0, loadingState := IDLE\<rparr> \<and>
   \<not> send_disabled
        (run (onChange (ascii ''more''))
           (run (handleAnalyze analysis_resolves streaming) streaming))"
  by (simp add: streaming_def typed_hi_eval example_defs handler_defs string_defs
      analyze_disabled_def send_disabled_def greeting_nonblank toString.simps react_defs)

end
